theory Spec2Isabelle
  imports Complex_Main
begin

section \<open>JavaScript numbers\<close>

text \<open>
  The funnel code computes with JavaScript numbers. The model keeps the four kinds of
  value an IEEE double can be, which is what the \<open>||\<close> fallback and the comparisons of
  the source distinguish: a finite value (an exact rational; rounding and the sign of
  zero are not modelled), the two infinities, and NaN.
\<close>

datatype number = Fin rat | PosInfinity | NegInfinity | NaN

text \<open>The \<open>/\<close> operator: a finite nonzero value over zero is an infinity, zero over zero is NaN.\<close>

fun js_div :: "number \<Rightarrow> number \<Rightarrow> number" where
  "js_div NaN y = NaN"
| "js_div x NaN = NaN"
| "js_div (Fin a) (Fin b) =
     (if b \<noteq> 0 then Fin (a / b)
      else if a = 0 then NaN
      else if 0 < a then PosInfinity else NegInfinity)"
| "js_div (Fin a) PosInfinity = Fin 0"
| "js_div (Fin a) NegInfinity = Fin 0"
| "js_div PosInfinity (Fin b) = (if 0 \<le> b then PosInfinity else NegInfinity)"
| "js_div NegInfinity (Fin b) = (if 0 \<le> b then NegInfinity else PosInfinity)"
| "js_div x y = NaN"

text \<open>The \<open>*\<close> operator: an infinity times zero is NaN.\<close>

fun js_mul :: "number \<Rightarrow> number \<Rightarrow> number" where
  "js_mul NaN y = NaN"
| "js_mul x NaN = NaN"
| "js_mul (Fin a) (Fin b) = Fin (a * b)"
| "js_mul (Fin a) PosInfinity =
     (if a = 0 then NaN else if 0 < a then PosInfinity else NegInfinity)"
| "js_mul (Fin a) NegInfinity =
     (if a = 0 then NaN else if 0 < a then NegInfinity else PosInfinity)"
| "js_mul PosInfinity (Fin b) =
     (if b = 0 then NaN else if 0 < b then PosInfinity else NegInfinity)"
| "js_mul NegInfinity (Fin b) =
     (if b = 0 then NaN else if 0 < b then NegInfinity else PosInfinity)"
| "js_mul PosInfinity PosInfinity = PosInfinity"
| "js_mul NegInfinity NegInfinity = PosInfinity"
| "js_mul x y = NegInfinity"

text \<open>The \<open>-\<close> operator.\<close>

fun js_sub :: "number \<Rightarrow> number \<Rightarrow> number" where
  "js_sub NaN y = NaN"
| "js_sub x NaN = NaN"
| "js_sub (Fin a) (Fin b) = Fin (a - b)"
| "js_sub (Fin a) PosInfinity = NegInfinity"
| "js_sub (Fin a) NegInfinity = PosInfinity"
| "js_sub PosInfinity (Fin b) = PosInfinity"
| "js_sub NegInfinity (Fin b) = NegInfinity"
| "js_sub PosInfinity NegInfinity = PosInfinity"
| "js_sub NegInfinity PosInfinity = NegInfinity"
| "js_sub x y = NaN"

text \<open>Truthiness of a number: \<open>0\<close> and NaN are falsy, everything else is truthy.\<close>

fun truthy :: "number \<Rightarrow> bool" where
  "truthy (Fin a) = (a \<noteq> 0)"
| "truthy NaN = False"
| "truthy x = True"

text \<open>\<open>x || y\<close> on numbers.\<close>

definition js_or :: "number \<Rightarrow> number \<Rightarrow> number" where
  "js_or x y = (if truthy x then x else y)"

text \<open>\<open>x > y\<close> and \<open>x >= y\<close>: every comparison with NaN is false.\<close>

fun js_less :: "number \<Rightarrow> number \<Rightarrow> bool" where
  "js_less NaN y = False"
| "js_less x NaN = False"
| "js_less (Fin a) (Fin b) = (a < b)"
| "js_less x PosInfinity = (x \<noteq> PosInfinity)"
| "js_less NegInfinity y = (y \<noteq> NegInfinity)"
| "js_less x y = False"

fun js_le :: "number \<Rightarrow> number \<Rightarrow> bool" where
  "js_le NaN y = False"
| "js_le x NaN = False"
| "js_le x y = (x = y \<or> js_less x y)"

text \<open>A count or an order index, as the number it is in the running program.\<close>

definition num :: "int \<Rightarrow> number" where
  "num k = Fin (of_int k)"

section \<open>Funnel steps\<close>

text \<open>
  \<open>FunnelStep\<close> of \<open>~/types\<close>, with the fields the funnel code reads: \<open>count\<close> and
  \<open>order\<close> are integers, \<open>average_conversion_time\<close> is a number or null, and
  \<open>breakdown\<close> is the list of per-segment steps that aggregation attaches (absent on
  a step that has none).
\<close>

datatype FunnelStep = FunnelStep
  (action_id: string)
  (name: string)
  (order: int)
  (count: int)
  (average_conversion_time: "rat option")
  (people: "string list")
  (breakdown: "FunnelStep list option")
  (breakdown_value: "string option")

text \<open>\<open>xs[i]\<close> on an array: \<open>undefined\<close> (here \<open>None\<close>) outside the array.\<close>

definition js_index :: "'a list \<Rightarrow> int \<Rightarrow> 'a option" where
  "js_index xs i = (if 0 \<le> i \<and> i < int (length xs) then Some (xs ! nat i) else None)"

section \<open>funnelUtils: percentages and the reference step\<close>

text \<open>
  \<^verbatim>\<open>return (numerator / denominator) * 100 || 0\<close>
\<close>

definition calcPercentage :: "number \<Rightarrow> number \<Rightarrow> number" where
  "calcPercentage numerator denominator =
     js_or (js_mul (js_div numerator denominator) (Fin 100)) (Fin 0)"

definition humanizeOrder :: "int \<Rightarrow> int" where
  "humanizeOrder n = n + 1"

datatype FunnelStepReference = total | previous

text \<open>
  \<open>getReferenceStep(steps, stepReference, index?)\<close>. The index is optional; \<open>!index\<close>
  holds for an absent index and for \<open>0\<close>.
\<close>

definition getReferenceStep ::
  "FunnelStep list \<Rightarrow> FunnelStepReference \<Rightarrow> int option \<Rightarrow> FunnelStep option" where
  "getReferenceStep steps stepReference index =
     (case index of
        None \<Rightarrow> js_index steps 0
      | Some i \<Rightarrow>
          if i = 0 \<or> i \<le> 0 then js_index steps 0
          else (case stepReference of
                  previous \<Rightarrow> js_index steps (i - 1)
                | total \<Rightarrow> js_index steps 0))"

section \<open>funnelLogic: aggregation of breakdown results\<close>

text \<open>
  A thrown value. The poller throws the object \<open>{ status: 0, statusText: 'Funnel timeout' }\<close>,
  which has no \<open>message\<close>; a failed request throws whatever the API layer threw; reading
  a property of \<open>undefined\<close> throws a TypeError, which has a \<open>message\<close> only.
\<close>

datatype js_error = JsError
  (status: "int option")
  (statusText: "string option")
  (message: "string option")

definition type_error :: js_error where
  "type_error = JsError None None (Some ''Cannot read property of undefined'')"

text \<open>
  An API response (\<open>FunnelResult\<close>, \<open>FunnelResultWithBreakdown\<close>): the \<open>result\<close> and
  the other fields the funnel code reads, \<open>last_refresh\<close> and the truthiness of the
  top-level \<open>loading\<close> property (false when the property is absent).
\<close>

record 'r api_response =
  result :: 'r
  last_refresh :: "string option"
  loading :: bool

text \<open>
  Counts are integers that are doubles, and the sum of two doubles is the double nearest
  to the exact sum, a tie going to the even significand. Every integer up to \<open>2^53\<close> in
  magnitude is a double. A larger one keeps its 53 leading bits: with \<open>e\<close> the number of
  bits beyond them, it is rounded to a multiple of \<open>2^e\<close>. A sum that rounds to \<open>2^1024\<close>
  or beyond is \<open>Infinity\<close> (or \<open>-Infinity\<close>), which no count of this model is: \<open>None\<close>.
\<close>

fun bit_length :: "nat \<Rightarrow> nat" where
  "bit_length n = (if n = 0 then 0 else Suc (bit_length (n div 2)))"

declare bit_length.simps [simp del]

definition to_double :: "int \<Rightarrow> int option" where
  "to_double n =
     (if \<bar>n\<bar> \<le> 2 ^ 53 then Some n
      else
        (let m = nat \<bar>n\<bar>;
             e = bit_length m - 53;
             q = m div 2 ^ e;
             r = m mod 2 ^ e;
             q' = (if 2 * r > 2 ^ e \<or> (2 * r = 2 ^ e \<and> odd q) then q + 1 else q);
             v = q' * 2 ^ e
         in if v \<ge> 2 ^ 1024 then None else Some (sgn n * int v)))"

text \<open>
  \<open>total += count\<close>, with \<open>total\<close> the running sum: once it is infinite it stays so, the
  counts being finite.
\<close>

fun add_count :: "int option \<Rightarrow> int \<Rightarrow> int option" where
  "add_count None c = None"
| "add_count (Some t) c = to_double (t + c)"

text \<open>
  \<^verbatim>\<open>breakdownList.reduce((total, breakdownSteps) => (total += breakdownSteps[i].count), 0)\<close>
  Reading \<open>.count\<close> of a segment that has no stage \<open>i\<close> throws.
\<close>

fun reduce_count :: "nat \<Rightarrow> FunnelStep list list \<Rightarrow> int option \<Rightarrow> js_error + int option" where
  "reduce_count i [] total' = Inr total'"
| "reduce_count i (breakdownSteps # rest) total' =
     (case js_index breakdownSteps (int i) of
        None \<Rightarrow> Inl type_error
      | Some s \<Rightarrow> reduce_count i rest (add_count total' (count s)))"

text \<open>
  \<^verbatim>\<open>breakdownList.reduce((allEntries, breakdownSteps) => [...allEntries, breakdownSteps[i]], [])\<close>
  It is evaluated after the count, so only when every segment has a stage \<open>i\<close>.
\<close>

definition reduce_breakdown :: "nat \<Rightarrow> FunnelStep list list \<Rightarrow> FunnelStep list" where
  "reduce_breakdown i breakdownList =
     foldl (\<lambda>allEntries breakdownSteps. allEntries @ [breakdownSteps ! i]) [] breakdownList"

text \<open>
  The callback of \<open>breakdownList[0].map((step, i) => ...)\<close>. The merged step is \<open>None\<close>
  when its count is not finite.
\<close>

definition aggregate_step ::
  "FunnelStep list list \<Rightarrow> FunnelStep \<Rightarrow> nat \<Rightarrow> js_error + FunnelStep option" where
  "aggregate_step breakdownList step i =
     (case reduce_count i breakdownList (Some 0) of
        Inl e \<Rightarrow> Inl e
      | Inr None \<Rightarrow> Inr None
      | Inr (Some c) \<Rightarrow>
          Inr (Some (FunnelStep (action_id step) (name step) (order step) c None []
                       (Some (reduce_breakdown i breakdownList)) (breakdown_value step))))"

text \<open>\<open>Array.map\<close> with the element's index, stopping at the first exception.\<close>

fun map_indexed :: "('a \<Rightarrow> nat \<Rightarrow> js_error + 'b) \<Rightarrow> 'a list \<Rightarrow> nat \<Rightarrow> js_error + 'b list" where
  "map_indexed f [] i = Inr []"
| "map_indexed f (x # xs) i =
     (case f x i of
        Inl e \<Rightarrow> Inl e
      | Inr y \<Rightarrow> (case map_indexed f xs (Suc i) of Inl e \<Rightarrow> Inl e | Inr ys \<Rightarrow> Inr (y # ys)))"

text \<open>
  \<open>aggregateBreakdownResult\<close>. It throws, or it returns the response with the merged
  steps; the returned value is \<open>None\<close> when the count of a merged step is not finite.
\<close>

definition aggregateBreakdownResult ::
  "FunnelStep list list api_response \<Rightarrow> js_error + FunnelStep list api_response option" where
  "aggregateBreakdownResult response =
     (let breakdownList = result response in
      case breakdownList of
        [] \<Rightarrow>
          Inr (Some \<lparr>result = [], last_refresh = last_refresh response,
                     loading = loading response\<rparr>)
      | first # others \<Rightarrow>
          (case map_indexed (aggregate_step breakdownList) first 0 of
             Inl e \<Rightarrow> Inl e
           | Inr merged \<Rightarrow>
               (case those merged of
                  None \<Rightarrow> Inr None
                | Some steps \<Rightarrow>
                    Inr (Some \<lparr>result = steps, last_refresh = last_refresh response,
                               loading = loading response\<rparr>))))"

section \<open>funnelLogic: the conversion window\<close>

text \<open>\<open>Math.round\<close>: the nearest integer, a tie going up.\<close>

fun Math_round :: "number \<Rightarrow> number" where
  "Math_round (Fin r) = Fin (of_int \<lfloor>r + 1 / 2\<rfloor>)"
| "Math_round x = x"

text \<open>
  The reducer of \<open>conversionWindowInDays\<close>:
  \<^verbatim>\<open>return days >= 1 && days <= 365 ? Math.round(days) : state\<close>
\<close>

definition setConversionWindowInDays :: "number \<Rightarrow> number \<Rightarrow> number" where
  "setConversionWindowInDays state days =
     (if js_le (Fin 1) days \<and> js_le days (Fin 365) then Math_round days else state)"

definition conversionWindowInDays_initial :: number where
  "conversionWindowInDays_initial = Fin 14"

text \<open>The state after a sequence of \<open>setConversionWindowInDays\<close> actions.\<close>

definition conversionWindowInDays_after :: "number list \<Rightarrow> number" where
  "conversionWindowInDays_after dayss = foldl setConversionWindowInDays conversionWindowInDays_initial dayss"

section \<open>funnelLogic: normalization of the filters\<close>

text \<open>
  An entity of the funnel (identifier, display name, kind, order index) and a property
  filter (key, value, operator).
\<close>

datatype Entity = Entity string string string int

datatype PropertyFilter = PropertyFilter string string string

text \<open>
  \<open>FilterType\<close> of \<open>~/types\<close>, with the fields that \<open>funnelLogic\<close> names. Every field is
  optional: \<open>None\<close> is an absent (or undefined, or null) field, \<open>Some []\<close> a field that
  is present and holds an empty array or the empty string. The field \<open>breakdown\<close> of the
  filters is \<open>breakdown_key\<close> here, \<open>breakdown\<close> being a field of a step.
\<close>

record FilterType =
  date_from :: "string option"
  date_to :: "string option"
  actions :: "Entity list option"
  events :: "Entity list option"
  display :: "string option"
  interval :: "string option"
  properties :: "PropertyFilter list option"
  filter_test_accounts :: "bool option"
  funnel_step :: "int option"
  breakdown_key :: "string option"
  breakdown_type :: "string option"
  insight :: "string option"
  from_dashboard :: "bool option"

text \<open>
  Truthiness, as the conditions \<open>filters.x ? ... : ...\<close> and \<open>filters.x || undefined\<close>
  test it: an absent field and the empty string are falsy, \<open>false\<close> and \<open>0\<close> are falsy,
  and every array is truthy, the empty one too.
\<close>

definition truthy_string :: "string option \<Rightarrow> bool" where
  "truthy_string x = (case x of None \<Rightarrow> False | Some s \<Rightarrow> s \<noteq> [])"

definition truthy_array :: "'a list option \<Rightarrow> bool" where
  "truthy_array x = (case x of None \<Rightarrow> False | Some xs \<Rightarrow> True)"

definition truthy_bool :: "bool option \<Rightarrow> bool" where
  "truthy_bool x = (case x of None \<Rightarrow> False | Some b \<Rightarrow> b)"

definition truthy_int :: "int option \<Rightarrow> bool" where
  "truthy_int x = (case x of None \<Rightarrow> False | Some n \<Rightarrow> n \<noteq> 0)"

text \<open>\<open>...(c ? { field: v } : {})\<close> inside an object literal: the field is written when \<open>c\<close> holds.\<close>

definition spread_if :: "bool \<Rightarrow> ('a \<Rightarrow> 'a) \<Rightarrow> 'a \<Rightarrow> 'a" where
  "spread_if c write obj = (if c then write obj else obj)"

definition ViewType_FUNNELS :: string where
  "ViewType_FUNNELS = ''FUNNELS''"

text \<open>
  \<open>cleanFunnelParams\<close>. The object literal starts from \<open>...filters\<close>, then follow the
  conditional spreads in the order of the source, then the four fields that are always
  written. \<open>autocorrectInterval\<close> of \<open>lib/utils\<close> is a parameter: it is applied to the
  filters as they came in.
\<close>

definition cleanFunnelParams :: "(FilterType \<Rightarrow> string) \<Rightarrow> FilterType \<Rightarrow> FilterType" where
  "cleanFunnelParams autocorrectInterval filters =
     (let obj = filters;
          obj = spread_if (truthy_string (date_from filters))
                  (\<lambda>obj. obj\<lparr>date_from := date_from filters\<rparr>) obj;
          obj = spread_if (truthy_string (date_to filters))
                  (\<lambda>obj. obj\<lparr>date_to := date_to filters\<rparr>) obj;
          obj = spread_if (truthy_array (actions filters))
                  (\<lambda>obj. obj\<lparr>actions := actions filters\<rparr>) obj;
          obj = spread_if (truthy_array (events filters))
                  (\<lambda>obj. obj\<lparr>events := events filters\<rparr>) obj;
          obj = spread_if (truthy_string (display filters))
                  (\<lambda>obj. obj\<lparr>display := display filters\<rparr>) obj;
          obj = spread_if (truthy_string (interval filters))
                  (\<lambda>obj. obj\<lparr>interval := interval filters\<rparr>) obj;
          obj = spread_if (truthy_array (properties filters))
                  (\<lambda>obj. obj\<lparr>properties := properties filters\<rparr>) obj;
          obj = spread_if (truthy_bool (filter_test_accounts filters))
                  (\<lambda>obj. obj\<lparr>filter_test_accounts := filter_test_accounts filters\<rparr>) obj;
          obj = spread_if (truthy_int (funnel_step filters))
                  (\<lambda>obj. obj\<lparr>funnel_step := funnel_step filters\<rparr>) obj
      in obj\<lparr>interval := Some (autocorrectInterval filters),
              breakdown_key :=
                (if truthy_string (breakdown_key filters) then breakdown_key filters else None),
              breakdown_type :=
                (if truthy_string (breakdown_type filters) then breakdown_type filters else None),
              insight := Some ViewType_FUNNELS\<rparr>)"

text \<open>\<^verbatim>\<open>[...(filters.actions || []), ...(filters.events || [])].length === 0\<close>\<close>

definition isStepsEmpty :: "FilterType \<Rightarrow> bool" where
  "isStepsEmpty filters =
     (length ((case actions filters of None \<Rightarrow> [] | Some xs \<Rightarrow> xs) @
              (case events filters of None \<Rightarrow> [] | Some xs \<Rightarrow> xs)) = 0)"

section \<open>funnelLogic: the poller\<close>

text \<open>
  \<open>FunnelRequestParams extends FilterType\<close>: the filters with the refresh flag and the
  conversion window.
\<close>

record FunnelRequestParams = FilterType +
  refresh :: "bool option"
  funnel_window_days :: "number option"

text \<open>
  What the poller reads of \<open>result.result\<close>, the body of a response: the truthiness of
  its \<open>loading\<close> property and the steps it holds.
\<close>

record funnel_payload =
  payload_loading :: bool
  payload_steps :: "FunnelStep list"

text \<open>
  A request as the remote service sees it: whether the URL carries \<open>refresh=true\<close>, the
  body, and the reading of the clock (in milliseconds) when it was sent.
\<close>

record request =
  url_refresh :: bool
  body :: FunnelRequestParams
  sent_at :: nat

text \<open>
  The world outside the poller. The remote service answers the \<open>k\<close>-th request (counted
  from 0) with a response or a thrown error, after \<open>latency k\<close> milliseconds; the timer
  of \<open>wait\<close> fires \<open>overshoot k\<close> milliseconds late, never early.
\<close>

record remote =
  respond :: "nat \<Rightarrow> request \<Rightarrow> js_error + funnel_payload api_response"
  latency :: "nat \<Rightarrow> nat"
  overshoot :: "nat \<Rightarrow> nat"

text \<open>
  The state threaded through a run: the clock and the requests sent so far. A reading of
  the clock is a whole number of milliseconds.
\<close>

record world =
  now :: nat
  requests :: "request list"

text \<open>\<open>await api.create(url, bodyParams)\<close>\<close>

definition api_create ::
  "remote \<Rightarrow> bool \<Rightarrow> FunnelRequestParams \<Rightarrow> world \<Rightarrow>
     (js_error + funnel_payload api_response) \<times> world" where
  "api_create env with_refresh bodyParams w =
     (let k = length (requests w);
          rq = \<lparr>url_refresh = with_refresh, body = bodyParams, sent_at = now w\<rparr>
      in (respond env k rq,
          w\<lparr>now := now w + latency env k, requests := requests w @ [rq]\<rparr>))"

text \<open>\<open>await wait(ms)\<close>: \<open>setTimeout(resolve, ms)\<close>\<close>

definition wait :: "remote \<Rightarrow> nat \<Rightarrow> world \<Rightarrow> world" where
  "wait env ms w = w\<lparr>now := now w + ms + overshoot env (length (requests w))\<rparr>"

definition SECONDS_TO_POLL :: nat where
  "SECONDS_TO_POLL = 3 * 60"

text \<open>
  The \<open>while\<close> loop of \<open>pollFunnel\<close>, with \<open>response\<close> the response in hand and \<open>start\<close>
  the clock reading taken after the first response:
  \<^verbatim>\<open>while (result.result.loading && (window.performance.now() - start) / 1000 < SECONDS_TO_POLL)\<close>
  A request that throws ends the run with its error.
\<close>

function poll_loop ::
  "remote \<Rightarrow> FunnelRequestParams \<Rightarrow> nat \<Rightarrow> funnel_payload api_response \<Rightarrow> world \<Rightarrow>
     (js_error + funnel_payload api_response) \<times> world" where
  "poll_loop env bodyParams start response w =
     (if payload_loading (result response) \<and>
         (of_nat (now w - start) :: rat) / 1000 < of_nat SECONDS_TO_POLL
      then (case api_create env False bodyParams (wait env 1000 w) of
              (Inl e, w') \<Rightarrow> (Inl e, w')
            | (Inr response', w') \<Rightarrow> poll_loop env bodyParams start response' w')
      else (Inr response, w))"
  by pat_completeness auto
termination
  apply (relation "measure (\<lambda>(env, bodyParams, start, response, w). start + 180000 - now w)")
   apply simp
  apply (auto simp: api_create_def wait_def Let_def SECONDS_TO_POLL_def)
  done

declare poll_loop.simps [simp del]

definition funnel_timeout :: js_error where
  "funnel_timeout = JsError (Some 0) (Some ''Funnel timeout'') None"

text \<open>
  \<open>pollFunnel(params)\<close>. The first request carries \<open>refresh=true\<close> when \<open>params.refresh\<close>
  is truthy; the body is the parameters without \<open>refresh\<close>. After the loop:
  \<^verbatim>\<open>if (result.loading) { throw { status: 0, statusText: 'Funnel timeout' } }\<close>
\<close>

definition pollFunnel ::
  "remote \<Rightarrow> FunnelRequestParams \<Rightarrow> world \<Rightarrow>
     (js_error + funnel_payload api_response) \<times> world" where
  "pollFunnel env params w =
     (let bodyParams = params\<lparr>refresh := None\<rparr> in
      case api_create env (truthy_bool (refresh params)) bodyParams w of
        (Inl e, w1) \<Rightarrow> (Inl e, w1)
      | (Inr response, w1) \<Rightarrow>
          (let start = now w1 in
           case poll_loop env bodyParams start response w1 of
             (Inl e, w2) \<Rightarrow> (Inl e, w2)
           | (Inr response', w2) \<Rightarrow>
               if loading response' then (Inl funnel_timeout, w2)
               else (Inr response', w2)))"

section \<open>funnelLogic: loading the results\<close>

text \<open>
  The actions that \<open>loadResults\<close> dispatches and the calls it makes to other logics, in
  the order it makes them: \<open>EndQuery\<close> carries the query id, the view, the
  \<open>last_refresh\<close> of the response and the exception, \<open>ReportFunnelCalculated\<close> the
  event count, the action count, the interval, the success flag and the error message.
  \<open>SetSteps_not_finite\<close> is \<open>setSteps\<close> with merged steps of which a count is not
  finite.
\<close>

datatype effect =
    SetStepsWithCountLoading bool
  | StartQuery string
  | EndQuery string string "string option" "js_error option"
  | ReportFunnelCalculated int int string bool "string option"
  | SetSteps "FunnelStep list"
  | SetSteps_not_finite

text \<open>
  How the promise of the loader settles: it resolves with the steps that become the value
  of \<open>results\<close> (\<open>Resolved_not_finite\<close>: with merged steps of which a count is not
  finite), it rejects with a thrown value, or \<open>breakpoint()\<close> ends it because a newer
  call has started.
\<close>

datatype load_outcome =
    Resolved "FunnelStep list"
  | Resolved_not_finite
  | Rejected js_error
  | Superseded

text \<open>
  What \<open>loadResults\<close> reads of \<open>props\<close> and \<open>values\<close>: the cached results, whether
  \<open>values.filters === props.filters\<close>, the filters, the conversion window, the value that
  \<open>uuid()\<close> returns, whether \<open>breakpoint()\<close> throws, and the imported
  \<open>TEST_BREAKDOWN_DATA\<close>.
\<close>

record load_context =
  props_cachedResults :: "FunnelStep list option"
  filters_are_props_filters :: bool
  values_filters :: FilterType
  values_conversionWindowInDays :: number
  queryId :: string
  superseded :: bool
  TEST_BREAKDOWN_DATA :: "FunnelStep list list api_response"

text \<open>The selector \<open>clickhouseFeatures\<close>: \<^verbatim>\<open>return true // TEMP\<close>\<close>

definition clickhouseFeatures :: bool where
  "clickhouseFeatures = True"

text \<open>\<open>params.events?.length || 0\<close>\<close>

definition length_or_0 :: "'a list option \<Rightarrow> int" where
  "length_or_0 x = (case x of None \<Rightarrow> 0 | Some xs \<Rightarrow> int (length xs))"

text \<open>
  The parameters of the request: the cleaned filters, with \<open>refresh: true\<close> when a
  refresh is asked for, and with the conversion window.
  \<^verbatim>\<open>{ ...(refresh ? { refresh: true } : {}), ...cleanedParams, funnel_window_days: ... }\<close>
\<close>

definition request_params ::
  "(FilterType \<Rightarrow> string) \<Rightarrow> load_context \<Rightarrow> bool \<Rightarrow> FunnelRequestParams" where
  "request_params autocorrectInterval ctx refresh_asked =
     FilterType.extend (cleanFunnelParams autocorrectInterval (values_filters ctx))
       (FunnelRequestParams.fields
          (if refresh_asked then Some True else None)
          (Some (values_conversionWindowInDays ctx)))"

text \<open>
  \<open>loadResults(refresh, breakpoint)\<close>. An exception of \<open>pollFunnel\<close> is caught: the
  query is ended with it, the failure is reported with \<open>e.message\<close>, and the loader
  returns \<open>[]\<close>. Aggregation runs outside the \<open>try\<close> block, on
  \<open>TEST_BREAKDOWN_DATA\<close>.
\<close>

definition loadResults ::
  "(FilterType \<Rightarrow> string) \<Rightarrow> remote \<Rightarrow> load_context \<Rightarrow> bool \<Rightarrow> world \<Rightarrow>
     load_outcome \<times> effect list \<times> world" where
  "loadResults autocorrectInterval env ctx refresh_asked w =
     (let fx = [SetStepsWithCountLoading True] in
      case (if \<not> refresh_asked \<and> filters_are_props_filters ctx
            then props_cachedResults ctx else None) of
        Some cached \<Rightarrow> (Resolved cached, fx, w)
      | None \<Rightarrow>
        (let params = request_params autocorrectInterval ctx refresh_asked;
             fx = fx @ [StartQuery (queryId ctx)];
             eventCount = length_or_0 (events params);
             actionCount = length_or_0 (actions params);
             interval' = (case interval params of None \<Rightarrow> [] | Some s \<Rightarrow> s)
         in case pollFunnel env params w of
              (Inl e, w') \<Rightarrow>
                (Resolved [],
                 fx @ [EndQuery (queryId ctx) ViewType_FUNNELS None (Some e),
                       ReportFunnelCalculated eventCount actionCount interval' False (message e)],
                 w')
            | (Inr response, w') \<Rightarrow>
                (let fx = fx @ [ReportFunnelCalculated eventCount actionCount interval' True None] in
                 if superseded ctx then (Superseded, fx, w')
                 else
                   (let fx = fx @ [EndQuery (queryId ctx) ViewType_FUNNELS
                                     (last_refresh response) None] in
                    if truthy_string (breakdown_key params) \<and> clickhouseFeatures
                    then (case aggregateBreakdownResult (TEST_BREAKDOWN_DATA ctx) of
                            Inl e \<Rightarrow> (Rejected e, fx, w')
                          | Inr None \<Rightarrow> (Resolved_not_finite, fx @ [SetSteps_not_finite], w')
                          | Inr (Some aggregatedResult) \<Rightarrow>
                              (Resolved (result aggregatedResult),
                               fx @ [SetSteps (result aggregatedResult)], w'))
                    else (Resolved (payload_steps (result response)),
                          fx @ [SetSteps (payload_steps (result response))], w')))))"

text \<open>
  What the specification asks of the query slot after a failure, for comparison with the
  code: a failed result that carries a cause string.
\<close>

definition failed_with_cause :: "load_outcome \<Rightarrow> bool" where
  "failed_with_cause outcome =
     (case outcome of
        Rejected e \<Rightarrow> message e \<noteq> None \<or> statusText e \<noteq> None
      | Resolved steps \<Rightarrow> False
      | Resolved_not_finite \<Rightarrow> False
      | Superseded \<Rightarrow> False)"

section \<open>FunnelBarGraph: what a stage reports\<close>

text \<open>
  A row of the popover of a bar. The title and the value are kept before they are
  formatted as text; \<open>visible\<close> is the optional flag of the source.
\<close>

datatype metric_title =
    Completed_step
  | Conversion_rate_total
  | Conversion_rate_from_step int
  | Dropped_off
  | Dropoff_rate_from_step int
  | Average_time_on_step

datatype metric_value = Count int | Percent number | Duration "rat option"

record popover_metric =
  title :: metric_title
  shown_value :: metric_value
  visible :: "bool option"

record bar =
  percentage :: number
  popoverMetrics :: "popover_metric list"

text \<open>The drop-off note of the footer: the count and the rate from the previous step.\<close>

record dropoff_note =
  dropped_off :: int
  dropoff_percent :: number

record funnel_section =
  bars :: "bar list"
  completed :: int
  dropoff :: "dropoff_note option"

text \<open>\<open>Bar\<close> renders a metric unless \<open>visible === false\<close>.\<close>

definition rendered_metrics :: "bar \<Rightarrow> popover_metric list" where
  "rendered_metrics b = filter (\<lambda>m. visible m \<noteq> Some False) (popoverMetrics b)"

fun is_dropoff_title :: "metric_title \<Rightarrow> bool" where
  "is_dropoff_title Dropped_off = True"
| "is_dropoff_title (Dropoff_rate_from_step n) = True"
| "is_dropoff_title t = False"

definition reports_dropoff :: "bar \<Rightarrow> bool" where
  "reports_dropoff b = list_ex (\<lambda>m. is_dropoff_title (title m)) (rendered_metrics b)"

text \<open>\<open>!!x.average_conversion_time\<close>\<close>

definition truthy_time :: "rat option \<Rightarrow> bool" where
  "truthy_time t = (case t of None \<Rightarrow> False | Some r \<Rightarrow> r \<noteq> 0)"

text \<open>\<open>previousStep?.count ?? 0\<close> and \<open>previousStep?.breakdown?.[index]?.count ?? 0\<close>\<close>

definition previousCount :: "FunnelStep option \<Rightarrow> int" where
  "previousCount previousStep = (case previousStep of None \<Rightarrow> 0 | Some p \<Rightarrow> count p)"

definition slice_previousCount :: "FunnelStep option \<Rightarrow> nat \<Rightarrow> int" where
  "slice_previousCount previousStep index =
     (case previousStep of
        None \<Rightarrow> 0
      | Some p \<Rightarrow>
          (case breakdown p of
             None \<Rightarrow> 0
           | Some slices \<Rightarrow>
               (case js_index slices (int index) of None \<Rightarrow> 0 | Some s \<Rightarrow> count s)))"

text \<open>The bar of one breakdown slice, at position \<open>index\<close> of the stage \<open>step\<close>.\<close>

definition breakdown_bar ::
  "FunnelStep \<Rightarrow> FunnelStep \<Rightarrow> FunnelStep \<Rightarrow> FunnelStep \<Rightarrow> nat \<Rightarrow> FunnelStep \<Rightarrow> bar" where
  "breakdown_bar firstStep basisStep previousStep step index slice =
     (let conversionRate = calcPercentage (num (count slice)) (num (count basisStep));
          previousCount' = slice_previousCount (Some previousStep) index;
          dropoffCount' = previousCount' - count slice;
          conversionRateFromPrevious = calcPercentage (num (count slice)) (num previousCount');
          totalConversionRate = calcPercentage (num (count slice)) (num (count firstStep));
          dropoffRateFromPrevious = js_sub (Fin 100) conversionRateFromPrevious
      in \<lparr>percentage = conversionRate,
          popoverMetrics =
            [\<lparr>title = Completed_step, shown_value = Count (count slice), visible = None\<rparr>,
             \<lparr>title = Conversion_rate_total, shown_value = Percent totalConversionRate,
              visible = None\<rparr>,
             \<lparr>title = Conversion_rate_from_step (humanizeOrder (order previousStep)),
              shown_value = Percent conversionRateFromPrevious,
              visible = Some (order step \<noteq> 0)\<rparr>,
             \<lparr>title = Dropped_off, shown_value = Count dropoffCount',
              visible = Some (order step \<noteq> 0 \<and> dropoffCount' > 0)\<rparr>,
             \<lparr>title = Dropoff_rate_from_step (humanizeOrder (order previousStep)),
              shown_value = Percent dropoffRateFromPrevious,
              visible = Some (order step \<noteq> 0 \<and> dropoffCount' > 0)\<rparr>,
             \<lparr>title = Average_time_on_step,
              shown_value = Duration (average_conversion_time slice),
              visible = Some (truthy_time (average_conversion_time slice))\<rparr>]\<rparr>)"

text \<open>The single bar of a stage that has no breakdown.\<close>

definition step_bar :: "FunnelStep \<Rightarrow> FunnelStep \<Rightarrow> FunnelStep \<Rightarrow> FunnelStep \<Rightarrow> bar" where
  "step_bar firstStep basisStep previousStep step =
     (let dropoffCount = previousCount (Some previousStep) - count step
      in \<lparr>percentage = calcPercentage (num (count step)) (num (count basisStep)),
          popoverMetrics =
            [\<lparr>title = Completed_step, shown_value = Count (count step), visible = None\<rparr>,
             \<lparr>title = Conversion_rate_total,
              shown_value = Percent (calcPercentage (num (count step)) (num (count firstStep))),
              visible = None\<rparr>,
             \<lparr>title = Conversion_rate_from_step (humanizeOrder (order previousStep)),
              shown_value =
                Percent (calcPercentage (num (count step)) (num (count previousStep))),
              visible = Some (order step \<noteq> 0)\<rparr>,
             \<lparr>title = Dropped_off, shown_value = Count dropoffCount,
              visible = Some (order step \<noteq> 0 \<and> dropoffCount > 0)\<rparr>,
             \<lparr>title = Dropoff_rate_from_step (humanizeOrder (order previousStep)),
              shown_value =
                Percent (js_sub (Fin 100)
                           (calcPercentage (num (count step)) (num (count previousStep)))),
              visible = Some (order step \<noteq> 0 \<and> dropoffCount > 0)\<rparr>,
             \<lparr>title = Average_time_on_step,
              shown_value = Duration (average_conversion_time step),
              visible = Some (truthy_time (average_conversion_time step))\<rparr>]\<rparr>)"

text \<open>
  The callback of \<open>steps.map((step, i) => ...)\<close>: the section of stage \<open>i\<close>. Reading
  \<open>.count\<close> or \<open>.order\<close> of a reference step that is undefined throws. The footer shows
  the drop-off when \<open>i > 0 && step.order > 0 && dropoffCount > 0\<close>.
\<close>

definition render_section ::
  "FunnelStepReference \<Rightarrow> FunnelStep list \<Rightarrow> FunnelStep \<Rightarrow> nat \<Rightarrow> js_error + funnel_section" where
  "render_section stepReference steps step i =
     (case getReferenceStep steps total None of
        None \<Rightarrow> Inl type_error
      | Some firstStep \<Rightarrow>
     (case getReferenceStep steps stepReference (Some (int i)) of
        None \<Rightarrow> Inl type_error
      | Some basisStep \<Rightarrow>
     (case getReferenceStep steps previous (Some (int i)) of
        None \<Rightarrow> Inl type_error
      | Some previousStep \<Rightarrow>
          (let dropoffCount = previousCount (Some previousStep) - count step
           in Inr \<lparr>bars =
                     (case breakdown step of
                        Some (s # ss) \<Rightarrow>
                          map (\<lambda>(index, slice).
                                 breakdown_bar firstStep basisStep previousStep step index slice)
                            (enumerate 0 (s # ss))
                      | _ \<Rightarrow> [step_bar firstStep basisStep previousStep step]),
                   completed = count step,
                   dropoff =
                     (if i > 0 \<and> order step > 0 \<and> dropoffCount > 0
                      then Some \<lparr>dropped_off = dropoffCount,
                                 dropoff_percent =
                                   js_sub (Fin 100)
                                     (calcPercentage (num (count step))
                                        (num (count previousStep)))\<rparr>
                      else None)\<rparr>))))"

text \<open>
  \<open>FunnelBarGraph\<close>: the steps are sorted by \<open>order\<close> (a stable sort), then each is
  rendered.
\<close>

definition FunnelBarGraph ::
  "FunnelStepReference \<Rightarrow> FunnelStep list \<Rightarrow> js_error + funnel_section list" where
  "FunnelBarGraph stepReference stepsParam =
     (let steps = sort_key order stepsParam
      in map_indexed (render_section stepReference steps) steps 0)"

section \<open>Sample steps\<close>

text \<open>Steps and segments used in the closed examples.\<close>

definition example_step :: "string \<Rightarrow> int \<Rightarrow> int \<Rightarrow> string \<Rightarrow> FunnelStep" where
  "example_step nm ord c segment = FunnelStep nm nm ord c None [] None (Some segment)"

definition example_steps :: "FunnelStep list" where
  "example_steps =
     [example_step ''visit'' 0 10 ''Chrome'', example_step ''signup'' 1 6 ''Chrome'',
      example_step ''pay'' 2 2 ''Chrome'']"

definition example_segments :: "FunnelStep list list" where
  "example_segments =
     [[example_step ''visit'' 0 10 ''Chrome'', example_step ''signup'' 1 6 ''Chrome'',
       example_step ''pay'' 2 2 ''Chrome''],
      [example_step ''visit'' 0 5 ''Safari'', example_step ''signup'' 1 3 ''Safari'',
       example_step ''pay'' 2 1 ''Safari'']]"

text \<open>Two segments of one stage, with the counts \<open>2^53\<close> and 1.\<close>

definition big_segments :: "FunnelStep list list" where
  "big_segments =
     [[example_step ''visit'' 0 9007199254740992 ''Chrome''],
      [example_step ''visit'' 0 1 ''Safari'']]"

section \<open>Auxiliary definitions for the request log and the sections\<close>






text \<open>The reference step of stage \<open>i\<close> when \<open>i\<close> is an index of the array.\<close>

definition reference_at :: "FunnelStep list \<Rightarrow> FunnelStepReference \<Rightarrow> nat \<Rightarrow> FunnelStep" where
  "reference_at steps stepReference i =
     (if i = 0 then steps ! 0
      else (case stepReference of previous \<Rightarrow> steps ! (i - 1) | total \<Rightarrow> steps ! 0))"

text \<open>\<open>step.breakdown?.length\<close> is truthy.\<close>

definition has_slices :: "FunnelStep \<Rightarrow> bool" where
  "has_slices step = (case breakdown step of Some (s # ss) \<Rightarrow> True | _ \<Rightarrow> False)"

text \<open>The section of stage \<open>i\<close>, with the reference steps looked up.\<close>

definition section_at :: "FunnelStepReference \<Rightarrow> FunnelStep list \<Rightarrow> nat \<Rightarrow> funnel_section" where
  "section_at stepReference steps i =
     (let step = steps ! i;
          firstStep = steps ! 0;
          basisStep = reference_at steps stepReference i;
          previousStep = reference_at steps previous i;
          dropoffCount = count previousStep - count step
      in \<lparr>bars =
            (case breakdown step of
               Some (s # ss) \<Rightarrow>
                 map (\<lambda>(index, slice).
                        breakdown_bar firstStep basisStep previousStep step index slice)
                   (enumerate 0 (s # ss))
             | _ \<Rightarrow> [step_bar firstStep basisStep previousStep step]),
          completed = count step,
          dropoff =
            (if i > 0 \<and> order step > 0 \<and> dropoffCount > 0
             then Some \<lparr>dropped_off = dropoffCount,
                        dropoff_percent =
                          js_sub (Fin 100)
                            (calcPercentage (num (count step)) (num (count previousStep)))\<rparr>
             else None)\<rparr>)"

section \<open>Sample filters, remotes and stages\<close>

text \<open>
  A sample interval policy for the closed examples: the requested interval, \<open>day\<close> when
  none is requested.
\<close>

definition autocorrect_example :: "FilterType \<Rightarrow> string" where
  "autocorrect_example filters =
     (case interval filters of None \<Rightarrow> ''day'' | Some s \<Rightarrow> if s = [] then ''day'' else s)"

definition example_filters :: FilterType where
  "example_filters =
     \<lparr>date_from = Some ''-7d'', date_to = None, actions = None,
      events = Some [Entity ''pageview'' ''pageview'' ''events'' 0,
                     Entity ''signup'' ''signup'' ''events'' 1],
      display = Some ''FunnelViz'', interval = None, properties = None,
      filter_test_accounts = Some False, funnel_step = None, breakdown_key = Some [],
      breakdown_type = None, insight = None, from_dashboard = None\<rparr>"



definition example_params :: FunnelRequestParams where
  "example_params =
     FilterType.extend (cleanFunnelParams autocorrect_example example_filters)
       (FunnelRequestParams.fields (Some True) (Some (Fin 14)))"

text \<open>A response whose body still reports loading, and a remote that is slow and never done.\<close>

definition loading_response :: "funnel_payload api_response" where
  "loading_response =
     \<lparr>result = \<lparr>payload_loading = True, payload_steps = []\<rparr>, last_refresh = None,
      loading = False\<rparr>"

definition slow_loading_remote :: remote where
  "slow_loading_remote =
     \<lparr>respond = (\<lambda>k rq. Inr loading_response), latency = (\<lambda>k. 59000), overshoot = (\<lambda>k. 0)\<rparr>"



text \<open>A remote that rejects every request, and one that answers with no steps.\<close>

definition server_error :: js_error where
  "server_error = JsError (Some 500) (Some ''Internal Server Error'') None"

definition failing_remote :: remote where
  "failing_remote =
     \<lparr>respond = (\<lambda>k rq. Inl server_error), latency = (\<lambda>k. 250), overshoot = (\<lambda>k. 0)\<rparr>"

definition empty_response :: "funnel_payload api_response" where
  "empty_response =
     \<lparr>result = \<lparr>payload_loading = False, payload_steps = []\<rparr>,
      last_refresh = None, loading = False\<rparr>"

definition empty_remote :: remote where
  "empty_remote =
     \<lparr>respond = (\<lambda>k rq. Inr empty_response), latency = (\<lambda>k. 250), overshoot = (\<lambda>k. 0)\<rparr>"

definition example_context :: load_context where
  "example_context =
     \<lparr>props_cachedResults = None, filters_are_props_filters = False,
      values_filters = example_filters, values_conversionWindowInDays = Fin 14,
      queryId = ''query-1'', superseded = False,
      TEST_BREAKDOWN_DATA = \<lparr>result = example_segments, last_refresh = None, loading = False\<rparr>\<rparr>"

definition initial_world :: world where
  "initial_world = \<lparr>now = 0, requests = []\<rparr>"

text \<open>A remote that sets the top-level \<open>loading\<close> property and not the one of the body.\<close>

definition flagged_response :: "funnel_payload api_response" where
  "flagged_response =
     \<lparr>result = \<lparr>payload_loading = False, payload_steps = []\<rparr>, last_refresh = None,
      loading = True\<rparr>"

definition flagged_remote :: remote where
  "flagged_remote =
     \<lparr>respond = (\<lambda>k rq. Inr flagged_response), latency = (\<lambda>k. 250), overshoot = (\<lambda>k. 0)\<rparr>"


text \<open>Four stages for the bar graph, given out of order; the last two carry two slices each.\<close>

definition example_slice :: "string \<Rightarrow> int \<Rightarrow> int \<Rightarrow> FunnelStep" where
  "example_slice segment ord c = FunnelStep ''1'' segment ord c None [] None (Some segment)"

definition graph_stage0 :: FunnelStep where
  "graph_stage0 = FunnelStep ''1'' ''visit'' 0 10 None [] None None"

definition graph_stage1 :: FunnelStep where
  "graph_stage1 = FunnelStep ''2'' ''signup'' 1 10 None [] None None"

definition graph_stage2 :: FunnelStep where
  "graph_stage2 =
     FunnelStep ''3'' ''cart'' 2 8 None []
       (Some [example_slice ''Chrome'' 2 5, example_slice ''Safari'' 2 3]) None"

definition graph_stage3 :: FunnelStep where
  "graph_stage3 =
     FunnelStep ''4'' ''pay'' 3 6 None []
       (Some [example_slice ''Chrome'' 3 5, example_slice ''Safari'' 3 1]) None"

definition graph_steps :: "FunnelStep list" where
  "graph_steps = [graph_stage2, graph_stage0, graph_stage3, graph_stage1]"

section \<open>Auxiliary definitions for the proofs\<close>

text \<open>The merged step of stage \<open>i\<close>, written without the reduces.\<close>

definition merged_step :: "FunnelStep list list \<Rightarrow> FunnelStep \<Rightarrow> nat \<Rightarrow> FunnelStep" where
  "merged_step breakdownList step i =
     FunnelStep (action_id step) (name step) (order step)
       (sum_list (map (\<lambda>seg. count (seg ! i)) breakdownList)) None []
       (Some (map (\<lambda>seg. seg ! i) breakdownList)) (breakdown_value step)"

section \<open>Properties of funnelUtils\<close>

lemma calcPercentage_zero_denominator:
  "calcPercentage (Fin n) (Fin 0) =
     (if n = 0 then Fin 0 else if 0 < n then PosInfinity else NegInfinity)"
  by (simp add: calcPercentage_def js_or_def)

text \<open>
  C2. The conversion rate over a basis count of 0 is not 0 for a nonzero count: the
  division yields an infinity, which is truthy, so the \<open>|| 0\<close> fallback (which catches
  only the NaN of 0/0) does not apply. At count 10 the result is Infinity.
\<close>

theorem calcPercentage_zero_basis_infinite:
  "calcPercentage (num 10) (num 0) = PosInfinity \<and> calcPercentage (num 10) (num 0) \<noteq> num 0"
  by (simp add: calcPercentage_def js_or_def num_def)

text \<open>
  C5. On a non-empty step sequence the reference step is \<open>steps[0]\<close> under \<open>total\<close>
  for every index \<open>i \<ge> 0\<close>; under \<open>previous\<close> it is \<open>steps[i - 1]\<close> for \<open>i \<ge> 1\<close>; and
  for an index \<open>\<le> 0\<close> or an absent index it is \<open>steps[0]\<close> whatever the mode.
\<close>

theorem getReferenceStep_spec:
  assumes "steps \<noteq> []"
  shows "(0 \<le> i \<longrightarrow> getReferenceStep steps total (Some i) = Some (steps ! 0)) \<and>
         (1 \<le> j \<longrightarrow> getReferenceStep steps previous (Some j) = js_index steps (j - 1)) \<and>
         (1 \<le> j \<and> j \<le> int (length steps) \<longrightarrow>
            getReferenceStep steps previous (Some j) = Some (steps ! nat (j - 1))) \<and>
         (k \<le> 0 \<longrightarrow> getReferenceStep steps mode (Some k) = Some (steps ! 0)) \<and>
         getReferenceStep steps mode None = Some (steps ! 0)"
  using assms
  by (auto simp: getReferenceStep_def js_index_def split: FunnelStepReference.splits)

theorem getReferenceStep_spec_witness:
  "getReferenceStep example_steps total (Some 2) = Some (example_step ''visit'' 0 10 ''Chrome'') \<and>
   getReferenceStep example_steps previous (Some 2) = Some (example_step ''signup'' 1 6 ''Chrome'') \<and>
   getReferenceStep example_steps previous (Some 0) = Some (example_step ''visit'' 0 10 ''Chrome'') \<and>
   getReferenceStep example_steps previous None = Some (example_step ''visit'' 0 10 ''Chrome'')"
proof -
  have ne: "example_steps \<noteq> []" by (simp add: example_steps_def)
  from getReferenceStep_spec [OF ne, of 2 2 0 previous]
  show ?thesis by (simp add: example_steps_def js_index_def)
qed

section \<open>Properties of the aggregation\<close>

lemma to_double_exact: "\<bar>n\<bar> \<le> 2 ^ 53 \<Longrightarrow> to_double n = Some n"
  by (simp add: to_double_def)

lemma reduce_count_ok:
  "\<forall>seg \<in> set bl. i < length seg \<and> 0 \<le> count (seg ! i) \<Longrightarrow> 0 \<le> t \<Longrightarrow>
   t + sum_list (map (\<lambda>seg. count (seg ! i)) bl) \<le> 2 ^ 53 \<Longrightarrow>
   reduce_count i bl (Some t) = Inr (Some (t + sum_list (map (\<lambda>seg. count (seg ! i)) bl)))"
proof (induction bl arbitrary: t)
  case Nil
  then show ?case by simp
next
  case (Cons seg bl)
  have rest: "0 \<le> sum_list (map (\<lambda>seg. count (seg ! i)) bl)"
    using Cons.prems(1) by (intro sum_list_nonneg) auto
  have c: "0 \<le> count (seg ! i)" and len: "i < length seg" using Cons.prems(1) by auto
  have "\<bar>t + count (seg ! i)\<bar> \<le> 2 ^ 53"
    using Cons.prems(2,3) rest c by simp
  then have add: "add_count (Some t) (count (seg ! i)) = Some (t + count (seg ! i))"
    by (simp add: to_double_exact)
  have "reduce_count i bl (Some (t + count (seg ! i))) =
      Inr (Some (t + count (seg ! i) + sum_list (map (\<lambda>seg. count (seg ! i)) bl)))"
    using Cons.prems c by (intro Cons.IH) (auto simp: add.assoc)
  then show ?case using len add by (simp add: js_index_def add.assoc)
qed

lemma reduce_breakdown_acc:
  "foldl (\<lambda>allEntries breakdownSteps. allEntries @ [breakdownSteps ! i]) acc bl
     = acc @ map (\<lambda>seg. seg ! i) bl"
  by (induction bl arbitrary: acc) auto

lemma reduce_breakdown_map: "reduce_breakdown i bl = map (\<lambda>seg. seg ! i) bl"
  by (simp add: reduce_breakdown_def reduce_breakdown_acc)

lemma map_indexed_ok:
  "\<forall>j < length xs. f (xs ! j) (k + j) = Inr (g (xs ! j) (k + j)) \<Longrightarrow>
   map_indexed f xs k = Inr (map (\<lambda>j. g (xs ! j) (k + j)) [0..<length xs])"
proof (induction xs arbitrary: k)
  case Nil
  then show ?case by simp
next
  case (Cons x xs)
  have first: "f x k = Inr (g x k)" using Cons.prems by force
  have rest: "\<forall>j < length xs. f (xs ! j) (Suc k + j) = Inr (g (xs ! j) (Suc k + j))"
    using Cons.prems by force
  have "map_indexed f xs (Suc k) = Inr (map (\<lambda>j. g (xs ! j) (Suc k + j)) [0..<length xs])"
    using Cons.IH [OF rest] .
  moreover have "map (\<lambda>j. g ((x # xs) ! j) (k + j)) [0..<length (x # xs)]
      = g x k # map (\<lambda>j. g (xs ! j) (Suc k + j)) [0..<length xs]"
    by (simp add: upt_rec [of 0] map_Suc_upt [symmetric] del: upt_Suc)
  ultimately show ?case using first by simp
qed

lemma those_map_Some: "those (map (\<lambda>x. Some (f x)) xs) = Some (map f xs)"
  by (induction xs) auto

lemma aggregate_step_ok:
  "\<forall>seg \<in> set bl. i < length seg \<and> 0 \<le> count (seg ! i) \<Longrightarrow>
   sum_list (map (\<lambda>seg. count (seg ! i)) bl) \<le> 2 ^ 53 \<Longrightarrow>
   aggregate_step bl step i = Inr (Some (merged_step bl step i))"
  using reduce_count_ok [of bl i 0]
  by (simp add: aggregate_step_def reduce_breakdown_map merged_step_def)

lemma aggregate_ok:
  assumes ne: "result r \<noteq> []"
    and len: "\<forall>seg \<in> set (result r). length seg = n"
    and pos: "\<forall>seg \<in> set (result r). \<forall>s \<in> set seg. 0 \<le> count s"
    and bound: "\<forall>i < n. sum_list (map (\<lambda>seg. count (seg ! i)) (result r)) \<le> 2 ^ 53"
  shows "aggregateBreakdownResult r =
     Inr (Some \<lparr>result = map (\<lambda>i. merged_step (result r) (hd (result r) ! i) i) [0..<n],
                last_refresh = last_refresh r, loading = loading r\<rparr>)"
proof -
  obtain first others where bl: "result r = first # others"
    using ne by (cases "result r") auto
  have n: "length first = n" using len bl by simp
  have "\<forall>j < length first. aggregate_step (result r) (first ! j) (0 + j)
          = Inr ((\<lambda>s j. Some (merged_step (result r) s j)) (first ! j) (0 + j))"
  proof (intro allI impI)
    fix j assume j: "j < length first"
    have "\<forall>seg \<in> set (result r). j < length seg \<and> 0 \<le> count (seg ! j)"
      using len pos n j by auto
    moreover have "sum_list (map (\<lambda>seg. count (seg ! j)) (result r)) \<le> 2 ^ 53"
      using bound n j by simp
    ultimately show "aggregate_step (result r) (first ! j) (0 + j)
          = Inr ((\<lambda>s j. Some (merged_step (result r) s j)) (first ! j) (0 + j))"
      by (simp add: aggregate_step_ok)
  qed
  from map_indexed_ok [OF this]
  show ?thesis using bl n by (simp add: aggregateBreakdownResult_def those_map_Some)
qed

text \<open>
  C3, as amended. For a non-empty list of segments whose step sequences all have the
  length \<open>n\<close>, whose counts are not negative and whose counts at each stage add up to at
  most \<open>2^53\<close>, aggregation returns \<open>n\<close> merged steps; the count of the merged step \<open>i\<close>
  is the sum of the segments' counts at stage \<open>i\<close>, and its breakdown is the list of the
  segments' steps at stage \<open>i\<close>, in the order of the segments. In particular two
  segments with the counts \<open>[10, 6, 2]\<close> and \<open>[5, 3, 1]\<close> give stages with the counts
  \<open>[15, 9, 3]\<close>, each with the two slices in input order.
\<close>

theorem aggregateBreakdownResult_merges:
  "(result r \<noteq> [] \<and> (\<forall>seg \<in> set (result r). length seg = n) \<and>
    (\<forall>seg \<in> set (result r). \<forall>s \<in> set seg. 0 \<le> count s) \<and>
    (\<forall>i < n. sum_list (map (\<lambda>seg. count (seg ! i)) (result r)) \<le> 2 ^ 53) \<longrightarrow>
      (\<exists>steps.
         aggregateBreakdownResult r =
           Inr (Some \<lparr>result = steps, last_refresh = last_refresh r, loading = loading r\<rparr>) \<and>
         length steps = n \<and>
         (\<forall>i < n.
            count (steps ! i) = sum_list (map (\<lambda>seg. count (seg ! i)) (result r)) \<and>
            breakdown (steps ! i) = Some (map (\<lambda>seg. seg ! i) (result r))))) \<and>
   (result r = [seg1, seg2] \<and> map count seg1 = [10, 6, 2] \<and> map count seg2 = [5, 3, 1] \<longrightarrow>
      (\<exists>steps.
         aggregateBreakdownResult r =
           Inr (Some \<lparr>result = steps, last_refresh = last_refresh r, loading = loading r\<rparr>) \<and>
         map count steps = [15, 9, 3] \<and>
         map breakdown steps =
           [Some [seg1 ! 0, seg2 ! 0], Some [seg1 ! 1, seg2 ! 1], Some [seg1 ! 2, seg2 ! 2]]))"
proof (intro conjI impI)
  assume a: "result r \<noteq> [] \<and> (\<forall>seg \<in> set (result r). length seg = n) \<and>
    (\<forall>seg \<in> set (result r). \<forall>s \<in> set seg. 0 \<le> count s) \<and>
    (\<forall>i < n. sum_list (map (\<lambda>seg. count (seg ! i)) (result r)) \<le> 2 ^ 53)"
  let ?steps = "map (\<lambda>i. merged_step (result r) (hd (result r) ! i) i) [0..<n]"
  have f1: "aggregateBreakdownResult r =
          Inr (Some \<lparr>result = ?steps, last_refresh = last_refresh r, loading = loading r\<rparr>)"
    using a by (intro aggregate_ok) auto
  have f2: "length ?steps = n" by simp
  have f3: "\<forall>i < n.
      count (?steps ! i) = sum_list (map (\<lambda>seg. count (seg ! i)) (result r)) \<and>
      breakdown (?steps ! i) = Some (map (\<lambda>seg. seg ! i) (result r))"
    by (simp add: merged_step_def)
  show "\<exists>steps.
         aggregateBreakdownResult r =
           Inr (Some \<lparr>result = steps, last_refresh = last_refresh r, loading = loading r\<rparr>) \<and>
         length steps = n \<and>
         (\<forall>i < n.
            count (steps ! i) = sum_list (map (\<lambda>seg. count (seg ! i)) (result r)) \<and>
            breakdown (steps ! i) = Some (map (\<lambda>seg. seg ! i) (result r)))"
    by (intro exI [where x = ?steps] conjI f1 f2 f3)
next
  assume b: "result r = [seg1, seg2] \<and> map count seg1 = [10, 6, 2] \<and> map count seg2 = [5, 3, 1]"
  then obtain a0 a1 a2 where s1: "seg1 = [a0, a1, a2]" by auto
  from b obtain b0 b1 b2 where s2: "seg2 = [b0, b1, b2]" by auto
  have len: "\<forall>seg \<in> set (result r). length seg = 3" using b s1 s2 by simp
  have ne: "result r \<noteq> []" using b by simp
  have pos: "\<forall>seg \<in> set (result r). \<forall>s \<in> set seg. 0 \<le> count s"
    using b s1 s2 by auto
  have up: "[0..<3] = [0, 1, 2]" by (simp add: upt_rec)
  have bound: "\<forall>i < 3. sum_list (map (\<lambda>seg. count (seg ! i)) (result r)) \<le> 2 ^ 53"
  proof (intro allI impI)
    fix i :: nat assume "i < 3"
    then have "i = 0 \<or> i = 1 \<or> i = 2" by auto
    then show "sum_list (map (\<lambda>seg. count (seg ! i)) (result r)) \<le> 2 ^ 53"
      using b s1 s2 by auto
  qed
  let ?steps = "map (\<lambda>i. merged_step (result r) (hd (result r) ! i) i) [0..<3]"
  have g1: "aggregateBreakdownResult r =
          Inr (Some \<lparr>result = ?steps, last_refresh = last_refresh r, loading = loading r\<rparr>)"
    using aggregate_ok [OF ne len pos bound] .
  have g2: "map count ?steps = [15, 9, 3]"
    using b s1 s2 by (simp add: up merged_step_def)
  have g3: "map breakdown ?steps =
      [Some [seg1 ! 0, seg2 ! 0], Some [seg1 ! 1, seg2 ! 1], Some [seg1 ! 2, seg2 ! 2]]"
    using b s1 s2 by (simp add: up merged_step_def)
  show "\<exists>steps.
         aggregateBreakdownResult r =
           Inr (Some \<lparr>result = steps, last_refresh = last_refresh r, loading = loading r\<rparr>) \<and>
         map count steps = [15, 9, 3] \<and>
         map breakdown steps =
           [Some [seg1 ! 0, seg2 ! 0], Some [seg1 ! 1, seg2 ! 1], Some [seg1 ! 2, seg2 ! 2]]"
    by (intro exI [where x = ?steps] conjI g1 g2 g3)
qed

theorem aggregateBreakdownResult_merges_witness:
  "\<exists>steps.
     aggregateBreakdownResult \<lparr>result = example_segments, last_refresh = None, loading = False\<rparr> =
       Inr (Some \<lparr>result = steps, last_refresh = None, loading = False\<rparr>) \<and>
     length steps = 3 \<and>
     map count steps = [15, 9, 3] \<and>
     map breakdown steps =
       [Some [example_step ''visit'' 0 10 ''Chrome'', example_step ''visit'' 0 5 ''Safari''],
        Some [example_step ''signup'' 1 6 ''Chrome'', example_step ''signup'' 1 3 ''Safari''],
        Some [example_step ''pay'' 2 2 ''Chrome'', example_step ''pay'' 2 1 ''Safari'']]"
proof -
  let ?r = "\<lparr>result = example_segments, last_refresh = None, loading = False\<rparr>"
  let ?s1 = "example_segments ! 0" and ?s2 = "example_segments ! 1"
  have b: "\<forall>i < 3. sum_list (map (\<lambda>seg. count (seg ! i)) example_segments) \<le> 2 ^ 53"
  proof (intro allI impI)
    fix i :: nat assume "i < 3"
    then have "i = 0 \<or> i = 1 \<or> i = 2" by auto
    then show "sum_list (map (\<lambda>seg. count (seg ! i)) example_segments) \<le> 2 ^ 53"
      by (auto simp: example_segments_def example_step_def)
  qed
  have h1: "result ?r \<noteq> [] \<and> (\<forall>seg \<in> set (result ?r). length seg = 3) \<and>
      (\<forall>seg \<in> set (result ?r). \<forall>s \<in> set seg. 0 \<le> count s) \<and>
      (\<forall>i < 3. sum_list (map (\<lambda>seg. count (seg ! i)) (result ?r)) \<le> 2 ^ 53)"
    using b by (simp add: example_segments_def example_step_def)
  have h2: "result ?r = [?s1, ?s2] \<and> map count ?s1 = [10, 6, 2] \<and> map count ?s2 = [5, 3, 1]"
    by (simp add: example_segments_def example_step_def)
  have both: "(\<exists>steps.
         aggregateBreakdownResult ?r =
           Inr (Some \<lparr>result = steps, last_refresh = None, loading = False\<rparr>) \<and>
         length steps = 3 \<and>
         (\<forall>i < 3.
            count (steps ! i) = sum_list (map (\<lambda>seg. count (seg ! i)) (result ?r)) \<and>
            breakdown (steps ! i) = Some (map (\<lambda>seg. seg ! i) (result ?r)))) \<and>
      (\<exists>steps.
         aggregateBreakdownResult ?r =
           Inr (Some \<lparr>result = steps, last_refresh = None, loading = False\<rparr>) \<and>
         map count steps = [15, 9, 3] \<and>
         map breakdown steps =
           [Some [?s1 ! 0, ?s2 ! 0], Some [?s1 ! 1, ?s2 ! 1], Some [?s1 ! 2, ?s2 ! 2]])"
    using aggregateBreakdownResult_merges [of ?r 3 ?s1 ?s2] h1 h2 by simp
  from both obtain steps where
    A: "aggregateBreakdownResult ?r =
          Inr (Some \<lparr>result = steps, last_refresh = None, loading = False\<rparr>)"
      and A2: "length steps = 3"
    by (elim conjE exE)
  from both obtain steps' where
    B: "aggregateBreakdownResult ?r =
          Inr (Some \<lparr>result = steps', last_refresh = None, loading = False\<rparr>)"
      and B2: "map count steps' = [15, 9, 3]"
      and B3: "map breakdown steps' =
           [Some [?s1 ! 0, ?s2 ! 0], Some [?s1 ! 1, ?s2 ! 1], Some [?s1 ! 2, ?s2 ! 2]]"
    by (elim conjE exE)
  have "steps' = steps" using A B by simp
  then show ?thesis using A A2 B2 B3 by (simp add: example_segments_def)
qed

lemma bit_length_big: "bit_length 9007199254740993 = 54"
  by (simp add: bit_length.simps)

text \<open>
  C3 as stated fails: the sum of the counts \<open>2^53\<close> and 1 is not a double, and the merged
  count is \<open>2^53\<close>.
\<close>

theorem aggregateBreakdownResult_rounds_the_sum:
  "aggregateBreakdownResult \<lparr>result = big_segments, last_refresh = None, loading = False\<rparr> =
     Inr (Some \<lparr>result =
                  [FunnelStep ''visit'' ''visit'' 0 9007199254740992 None []
                     (Some [example_step ''visit'' 0 9007199254740992 ''Chrome'',
                            example_step ''visit'' 0 1 ''Safari''])
                     (Some ''Chrome'')],
                last_refresh = None, loading = False\<rparr>) \<and>
   count (big_segments ! 0 ! 0) + count (big_segments ! 1 ! 0) = 9007199254740993"
  by (simp add: aggregateBreakdownResult_def aggregate_step_def reduce_breakdown_def
      js_index_def big_segments_def example_step_def to_double_def bit_length_big Let_def)

text \<open>Two counts of \<open>2^1023\<close> add up to \<open>Infinity\<close>.\<close>

lemma bit_length_power: "bit_length (2 ^ k) = Suc k"
proof (induction k)
  case 0
  show ?case by (simp add: bit_length.simps [of "Suc 0"] bit_length.simps [of 0])
next
  case (Suc k)
  show ?case using Suc by (subst bit_length.simps) simp
qed

lemma to_double_overflow: "to_double (2 ^ 1024) = None"
proof -
  have a: "\<not> \<bar>(2::int) ^ 1024\<bar> \<le> 2 ^ 53" by simp
  have m: "nat \<bar>(2::int) ^ 1024\<bar> = 2 ^ 1024" by simp
  show ?thesis
    unfolding to_double_def Let_def m bit_length_power
    using a by (simp del: power_numeral add: power_diff [symmetric])
qed

lemma add_count_overflow: "add_count (Some (2 ^ 1023)) (2 ^ 1023) = None"
proof -
  have "(2::int) ^ 1023 + 2 ^ 1023 = 2 ^ 1024" by simp
  then show ?thesis by (simp only: add_count.simps to_double_overflow)
qed

section \<open>Properties of the conversion window\<close>

lemma setConversionWindowInDays_in_range:
  assumes "js_le (Fin 1) days \<and> js_le days (Fin 365)"
  shows "\<exists>r k. days = Fin r \<and> setConversionWindowInDays state days = num k \<and>
            1 \<le> k \<and> k \<le> 365 \<and> \<bar>of_int k - r\<bar> \<le> 1 / 2"
proof -
  from assms obtain r where d: "days = Fin r" by (cases days) auto
  with assms have r: "1 \<le> r" "r \<le> 365" by auto
  let ?k = "\<lfloor>r + 1 / 2\<rfloor>"
  have "setConversionWindowInDays state days = num ?k"
    using assms d by (simp add: setConversionWindowInDays_def num_def)
  moreover have "1 \<le> ?k" using r by linarith
  moreover have "?k \<le> 365" using r by linarith
  moreover have "\<bar>of_int ?k - r\<bar> \<le> 1 / 2" by linarith
  ultimately show ?thesis using d by blast
qed

lemma setConversionWindowInDays_invariant:
  assumes "\<exists>k. state = num k \<and> 1 \<le> k \<and> k \<le> 365"
  shows "\<exists>k. setConversionWindowInDays state days = num k \<and> 1 \<le> k \<and> k \<le> 365"
proof (cases "js_le (Fin 1) days \<and> js_le days (Fin 365)")
  case True
  from setConversionWindowInDays_in_range [OF this, of state] show ?thesis by blast
next
  case False
  then show ?thesis using assms by (auto simp: setConversionWindowInDays_def)
qed

lemma foldl_setConversionWindowInDays_invariant:
  "\<exists>k. state = num k \<and> 1 \<le> k \<and> k \<le> 365 \<Longrightarrow>
   \<exists>k. foldl setConversionWindowInDays state dayss = num k \<and> 1 \<le> k \<and> k \<le> 365"
proof (induction dayss arbitrary: state)
  case Nil
  then show ?case by simp
next
  case (Cons d ds)
  show ?case
    using Cons.IH [OF setConversionWindowInDays_invariant [OF Cons.prems, of d]] by simp
qed

text \<open>
  C10. Starting from 14, the conversion window after any sequence of
  \<open>setConversionWindowInDays\<close> actions is an integer between 1 and 365. A value in
  \<open>[1, 365]\<close> is stored rounded to a nearest integer; any other value (NaN and the
  infinities too) leaves the state as it was.
\<close>

theorem conversionWindowInDays_bounded:
  "(\<exists>k. conversionWindowInDays_after dayss = num k \<and> 1 \<le> k \<and> k \<le> 365) \<and>
   (js_le (Fin 1) days \<and> js_le days (Fin 365) \<longrightarrow>
      (\<exists>r k. days = Fin r \<and> setConversionWindowInDays state days = num k \<and>
             \<bar>of_int k - r\<bar> \<le> 1 / 2)) \<and>
   (\<not> (js_le (Fin 1) days' \<and> js_le days' (Fin 365)) \<longrightarrow>
      setConversionWindowInDays state days' = state)"
proof (intro conjI impI)
  have "\<exists>k. conversionWindowInDays_initial = num k \<and> 1 \<le> k \<and> k \<le> 365"
    by (simp add: conversionWindowInDays_initial_def num_def)
  from foldl_setConversionWindowInDays_invariant [OF this]
  show "\<exists>k. conversionWindowInDays_after dayss = num k \<and> 1 \<le> k \<and> k \<le> 365"
    by (simp add: conversionWindowInDays_after_def)
next
  assume "js_le (Fin 1) days \<and> js_le days (Fin 365)"
  from setConversionWindowInDays_in_range [OF this, of state]
  show "\<exists>r k. days = Fin r \<and> setConversionWindowInDays state days = num k \<and>
             \<bar>of_int k - r\<bar> \<le> 1 / 2" by blast
next
  assume "\<not> (js_le (Fin 1) days' \<and> js_le days' (Fin 365))"
  then show "setConversionWindowInDays state days' = state"
    by (auto simp: setConversionWindowInDays_def)
qed

theorem conversionWindowInDays_bounded_witness:
  "(\<exists>k. conversionWindowInDays_after [Fin 30, Fin 1000, NaN, Fin (7 / 2)] = num k \<and>
        1 \<le> k \<and> k \<le> 365) \<and>
   setConversionWindowInDays (Fin 14) (Fin (7 / 2)) = Fin 4 \<and>
   setConversionWindowInDays (Fin 14) (Fin 366) = Fin 14 \<and>
   conversionWindowInDays_after [Fin 30, Fin 1000, NaN, Fin (7 / 2)] = Fin 4"
proof -
  have h1: "js_le (Fin 1) (Fin (7 / 2)) \<and> js_le (Fin (7 / 2)) (Fin 365)" by simp
  have h2: "\<not> (js_le (Fin 1) (Fin 366) \<and> js_le (Fin 366) (Fin 365))" by simp
  have v: "setConversionWindowInDays (Fin 14) (Fin (7 / 2)) = Fin 4"
    by (simp add: setConversionWindowInDays_def)
  have w: "conversionWindowInDays_after [Fin 30, Fin 1000, NaN, Fin (7 / 2)] = Fin 4"
    by (simp add: conversionWindowInDays_after_def conversionWindowInDays_initial_def
        setConversionWindowInDays_def)
  from conversionWindowInDays_bounded
    [of "[Fin 30, Fin 1000, NaN, Fin (7 / 2)]" "Fin (7 / 2)" "Fin 14" "Fin 366"] h1 h2 v w
  show ?thesis by simp
qed

section \<open>Properties of the normalization\<close>

lemma cleanFunnelParams_eq:
  "cleanFunnelParams ac f =
     f\<lparr>interval := Some (ac f),
       breakdown_key := (if truthy_string (breakdown_key f) then breakdown_key f else None),
       breakdown_type := (if truthy_string (breakdown_type f) then breakdown_type f else None),
       insight := Some ViewType_FUNNELS\<rparr>"
  by (simp add: cleanFunnelParams_def spread_if_def Let_def)

text \<open>
  C4, as amended. Normalization keeps \<open>actions\<close>, \<open>events\<close>, \<open>properties\<close>,
  \<open>date_from\<close>, \<open>date_to\<close>, \<open>display\<close>, \<open>filter_test_accounts\<close>, \<open>funnel_step\<close>
  and \<open>from_dashboard\<close> exactly as they came in: an empty collection stays an empty
  collection and an absent field stays absent. It always writes \<open>interval\<close>, with the
  interval of the policy, and \<open>insight\<close>, with \<open>FUNNELS\<close>. It keeps the breakdown key
  and the breakdown type when they are truthy, and makes them undefined when they are the
  empty string or absent.
\<close>

theorem cleanFunnelParams_keeps_fields:
  "actions (cleanFunnelParams ac filters) = actions filters \<and>
   events (cleanFunnelParams ac filters) = events filters \<and>
   properties (cleanFunnelParams ac filters) = properties filters \<and>
   date_from (cleanFunnelParams ac filters) = date_from filters \<and>
   date_to (cleanFunnelParams ac filters) = date_to filters \<and>
   display (cleanFunnelParams ac filters) = display filters \<and>
   filter_test_accounts (cleanFunnelParams ac filters) = filter_test_accounts filters \<and>
   funnel_step (cleanFunnelParams ac filters) = funnel_step filters \<and>
   from_dashboard (cleanFunnelParams ac filters) = from_dashboard filters \<and>
   interval (cleanFunnelParams ac filters) = Some (ac filters) \<and>
   insight (cleanFunnelParams ac filters) = Some ViewType_FUNNELS \<and>
   breakdown_key (cleanFunnelParams ac filters) =
     (if truthy_string (breakdown_key filters) then breakdown_key filters else None) \<and>
   breakdown_type (cleanFunnelParams ac filters) =
     (if truthy_string (breakdown_type filters) then breakdown_type filters else None)"
  by (simp add: cleanFunnelParams_eq)

text \<open>
  C4 as stated fails: two filters that differ only in \<open>properties\<close>, an empty array in
  one and absent in the other, normalize to different outputs, and the empty array is
  still there. (By the theorem above this does not depend on the interval policy.)
\<close>

theorem cleanFunnelParams_absent_vs_empty:
  "cleanFunnelParams autocorrect_example (example_filters\<lparr>properties := Some []\<rparr>) \<noteq>
     cleanFunnelParams autocorrect_example (example_filters\<lparr>properties := None\<rparr>) \<and>
   properties (cleanFunnelParams autocorrect_example (example_filters\<lparr>properties := Some []\<rparr>))
     = Some [] \<and>
   properties (cleanFunnelParams autocorrect_example (example_filters\<lparr>properties := None\<rparr>))
     = None"
  by (simp add: cleanFunnelParams_eq example_filters_def)






section \<open>Properties of the poller\<close>

lemma poll_loop_stop:
  "\<not> (payload_loading (result r) \<and> now w - start < 180000) \<Longrightarrow>
   poll_loop env b start r w = (Inr r, w)"
  by (subst poll_loop.simps) (auto simp: SECONDS_TO_POLL_def)

lemma poll_loop_retry:
  "payload_loading (result r) \<Longrightarrow> now w - start < 180000 \<Longrightarrow>
   poll_loop env b start r w =
     (case api_create env False b (wait env 1000 w) of
        (Inl e, w') \<Rightarrow> (Inl e, w')
      | (Inr r', w') \<Rightarrow> poll_loop env b start r' w')"
  by (subst poll_loop.simps) (simp add: SECONDS_TO_POLL_def)

lemma poll_loop_still_loading:
  "\<forall>k rq. \<exists>r. respond env k rq = Inr r \<and> payload_loading (result r) \<and> \<not> loading r \<Longrightarrow>
   payload_loading (result r) \<Longrightarrow> \<not> loading r \<Longrightarrow>
   \<exists>r' w'. poll_loop env b start r w = (Inr r', w') \<and>
           payload_loading (result r') \<and> \<not> loading r' \<and> 180000 \<le> now w' - start"
proof (induction env b start r w rule: poll_loop.induct)
  case (1 env b start r w)
  show ?case
  proof (cases "now w - start < 180000")
    case False
    then have "poll_loop env b start r w = (Inr r, w)" by (simp add: poll_loop_stop)
    then show ?thesis using False "1.prems" by simp
  next
    case True
    obtain x w2 where ac: "api_create env False b (wait env 1000 w) = (x, w2)"
      by (cases "api_create env False b (wait env 1000 w)") auto
    have "\<exists>r. x = Inr r \<and> payload_loading (result r) \<and> \<not> loading r"
      using ac "1.prems"(1) by (auto simp: api_create_def Let_def)
    then obtain r2 where x: "x = Inr r2" and l: "payload_loading (result r2)" "\<not> loading r2"
      by blast
    have c: "payload_loading (result r) \<and>
        (of_nat (now w - start) :: rat) / 1000 < of_nat SECONDS_TO_POLL"
      using True "1.prems" by (simp add: SECONDS_TO_POLL_def)
    have step: "poll_loop env b start r w = poll_loop env b start r2 w2"
      using True "1.prems" ac x by (simp add: poll_loop_retry)
    from "1.IH" [OF c ac [symmetric] x "1.prems"(1) l]
    show ?thesis using step by simp
  qed
qed

lemma pollFunnel_never_times_out:
  assumes "\<forall>k rq. \<exists>r. respond env k rq = Inr r \<and> payload_loading (result r) \<and> \<not> loading r"
  shows "\<exists>r' w'. pollFunnel env params w = (Inr r', w') \<and> payload_loading (result r')"
proof -
  let ?b = "params\<lparr>refresh := None\<rparr>"
  obtain x w1 where ac: "api_create env (truthy_bool (refresh params)) ?b w = (x, w1)"
    by (cases "api_create env (truthy_bool (refresh params)) ?b w") auto
  have "\<exists>r. x = Inr r \<and> payload_loading (result r) \<and> \<not> loading r"
    using ac assms by (auto simp: api_create_def Let_def)
  then obtain r where x: "x = Inr r" and l: "payload_loading (result r)" "\<not> loading r"
    by blast
  from poll_loop_still_loading [OF assms l, of ?b "now w1" w1]
  obtain r' w' where "poll_loop env ?b (now w1) r w1 = (Inr r', w')"
    "payload_loading (result r')" "\<not> loading r'" by blast
  then show ?thesis using ac x by (simp add: pollFunnel_def Let_def)
qed

text \<open>
  C1. A remote whose every response body reports loading, each request taking 59 seconds:
  the loop gives up once 180 seconds have passed, after four requests, and \<open>pollFunnel\<close>
  returns the last response, which still reports loading, instead of throwing the
  timeout error. The check after the loop reads the top-level \<open>loading\<close> property, the
  loop reads \<open>result.loading\<close>.
\<close>

theorem pollFunnel_returns_loading_response:
  "fst (pollFunnel slow_loading_remote example_params \<lparr>now = 0, requests = []\<rparr>)
     = Inr loading_response \<and>
   payload_loading (result loading_response) \<and>
   now (snd (pollFunnel slow_loading_remote example_params \<lparr>now = 0, requests = []\<rparr>)) = 239000 \<and>
   length (requests (snd (pollFunnel slow_loading_remote example_params \<lparr>now = 0, requests = []\<rparr>))) = 4"
  by (simp add: pollFunnel_def api_create_def wait_def Let_def slow_loading_remote_def
      loading_response_def  truthy_bool_def poll_loop_stop poll_loop_retry)

text \<open>
  When it is the top-level property that is set, the loop does not run at all and the
  timeout error is thrown after the first response.
\<close>

lemma pollFunnel_top_level_loading_throws_at_once:
  "pollFunnel flagged_remote example_params initial_world =
     (Inl funnel_timeout,
      \<lparr>now = 250,
       requests = [\<lparr>url_refresh = True, body = example_params\<lparr>refresh := None\<rparr>,
                    sent_at = 0\<rparr>]\<rparr>)"
  by (simp add: pollFunnel_def api_create_def Let_def flagged_remote_def flagged_response_def
      initial_world_def poll_loop_stop truthy_bool_def example_params_def
      FilterType.extend_def FunnelRequestParams.fields_def)







section \<open>Properties of loading the results\<close>

text \<open>
  C6, as amended. When the cache is not used and \<open>pollFunnel\<close> throws (a remote error
  or the timeout error), \<open>loadResults\<close> ends the query with the thrown value, reports
  the failure with its \<open>message\<close>, dispatches no \<open>setSteps\<close>, and resolves with the
  empty list of steps.
\<close>

theorem loadResults_failure_resolves_empty:
  assumes miss: "(if \<not> refresh_asked \<and> filters_are_props_filters ctx
                  then props_cachedResults ctx else None) = None"
    and fail: "pollFunnel env (request_params ac ctx refresh_asked) w = (Inl e, w')"
  shows "loadResults ac env ctx refresh_asked w =
           (Resolved [],
            [SetStepsWithCountLoading True,
             StartQuery (queryId ctx),
             EndQuery (queryId ctx) ViewType_FUNNELS None (Some e),
             ReportFunnelCalculated
               (length_or_0 (events (request_params ac ctx refresh_asked)))
               (length_or_0 (actions (request_params ac ctx refresh_asked)))
               (case interval (request_params ac ctx refresh_asked) of
                  None \<Rightarrow> [] | Some s \<Rightarrow> s)
               False (message e)],
            w')"
  using fail by (simp add: loadResults_def miss Let_def)

theorem loadResults_failure_resolves_empty_witness:
  "loadResults autocorrect_example failing_remote example_context False initial_world =
     (Resolved [],
      [SetStepsWithCountLoading True,
       StartQuery ''query-1'',
       EndQuery ''query-1'' ''FUNNELS'' None (Some server_error),
       ReportFunnelCalculated 2 0 ''day'' False None],
      \<lparr>now = 250,
       requests = [\<lparr>url_refresh = False,
                    body = request_params autocorrect_example example_context False,
                    sent_at = 0\<rparr>]\<rparr>)"
proof -
  let ?w' = "\<lparr>now = 250,
       requests = [\<lparr>url_refresh = False,
                    body = request_params autocorrect_example example_context False,
                    sent_at = 0\<rparr>]\<rparr>"
  have miss: "(if \<not> False \<and> filters_are_props_filters example_context
                 then props_cachedResults example_context else None) = None"
    by (simp add: example_context_def)
  have same: "(request_params autocorrect_example example_context False)\<lparr>refresh := None\<rparr>
      = request_params autocorrect_example example_context False"
    by (simp add: request_params_def FilterType.extend_def FunnelRequestParams.fields_def)
  have fail: "pollFunnel failing_remote (request_params autocorrect_example example_context False)
                initial_world = (Inl server_error, ?w')"
    by (simp add: pollFunnel_def api_create_def Let_def failing_remote_def initial_world_def
        same truthy_bool_def)
       (simp add: request_params_def FilterType.extend_def FunnelRequestParams.fields_def)
  have vals: "length_or_0 (events (request_params autocorrect_example example_context False)) = 2"
    "length_or_0 (actions (request_params autocorrect_example example_context False)) = 0"
    "interval (request_params autocorrect_example example_context False) = Some ''day''"
    by (simp_all add: request_params_def FilterType.extend_def FunnelRequestParams.fields_def
        cleanFunnelParams_eq example_context_def example_filters_def length_or_0_def
        autocorrect_example_def)
  have q: "queryId example_context = ''query-1''" by (simp add: example_context_def)
  from loadResults_failure_resolves_empty [OF miss fail]
  show ?thesis
    by (simp add: vals q server_error_def ViewType_FUNNELS_def)
qed

text \<open>
  C6 as stated fails: with a remote that rejects the request, the loader resolves with
  \<open>[]\<close>, which is not a failed result with a cause, and is what it resolves with when
  the remote answers with no steps.
\<close>

theorem loadResults_failure_not_failed:
  "fst (loadResults autocorrect_example failing_remote example_context False initial_world)
     = Resolved [] \<and>
   \<not> failed_with_cause
       (fst (loadResults autocorrect_example failing_remote example_context False initial_world)) \<and>
   fst (loadResults autocorrect_example empty_remote example_context False initial_world)
     = Resolved []"
  by (simp add: loadResults_def pollFunnel_def api_create_def Let_def failing_remote_def
      empty_remote_def empty_response_def initial_world_def example_context_def
      failed_with_cause_def poll_loop_stop request_params_def FilterType.extend_def
      FunnelRequestParams.fields_def cleanFunnelParams_eq example_filters_def
      truthy_bool_def truthy_string_def)

text \<open>The timeout object has no \<open>message\<close>: the failure is reported without one.\<close>

lemma loadResults_timeout_reports_no_message:
  "fst (loadResults autocorrect_example flagged_remote example_context False initial_world)
     = Resolved [] \<and>
   fst (snd (loadResults autocorrect_example flagged_remote example_context False initial_world))
     = [SetStepsWithCountLoading True,
        StartQuery ''query-1'',
        EndQuery ''query-1'' ''FUNNELS'' None (Some funnel_timeout),
        ReportFunnelCalculated 2 0 ''day'' False None]"
  by (simp add: loadResults_def pollFunnel_def api_create_def Let_def flagged_remote_def
      flagged_response_def initial_world_def example_context_def poll_loop_stop
      request_params_def FilterType.extend_def FunnelRequestParams.fields_def
      cleanFunnelParams_eq example_filters_def truthy_bool_def truthy_string_def
      length_or_0_def autocorrect_example_def funnel_timeout_def ViewType_FUNNELS_def)

text \<open>
  An exception of the aggregation is thrown outside the \<open>try\<close> block: the promise of
  the loader rejects with it.
\<close>

lemma loadResults_aggregation_error_rejects:
  assumes "(if \<not> refresh_asked \<and> filters_are_props_filters ctx
            then props_cachedResults ctx else None) = None"
    and "pollFunnel env (request_params ac ctx refresh_asked) w = (Inr response, w')"
    and "\<not> superseded ctx"
    and "truthy_string (breakdown_key (request_params ac ctx refresh_asked))"
    and "aggregateBreakdownResult (TEST_BREAKDOWN_DATA ctx) = Inl e"
  shows "fst (loadResults ac env ctx refresh_asked w) = Rejected e"
  using assms by (simp add: loadResults_def Let_def clickhouseFeatures_def)

section \<open>Properties of the bar graph\<close>

lemma getReferenceStep_in_range:
  "i < length steps \<Longrightarrow>
   getReferenceStep steps stepReference (Some (int i)) = Some (reference_at steps stepReference i)"
  by (cases stepReference)
     (auto simp: getReferenceStep_def js_index_def reference_at_def nat_diff_distrib')

lemma getReferenceStep_first:
  "steps \<noteq> [] \<Longrightarrow> getReferenceStep steps total None = Some (steps ! 0)"
  by (simp add: getReferenceStep_def js_index_def)

lemma render_section_in_range:
  assumes "i < length steps"
  shows "render_section stepReference steps (steps ! i) i = Inr (section_at stepReference steps i)"
proof -
  have ne: "steps \<noteq> []" using assms by auto
  show ?thesis
    by (simp add: render_section_def getReferenceStep_in_range [OF assms]
        getReferenceStep_first [OF ne] section_at_def previousCount_def Let_def)
qed

lemma FunnelBarGraph_sections:
  "FunnelBarGraph stepReference stepsParam =
     Inr (map (section_at stepReference (sort_key order stepsParam)) [0..<length stepsParam])"
proof -
  let ?steps = "sort_key order stepsParam"
  have "\<forall>j < length ?steps. render_section stepReference ?steps (?steps ! j) (0 + j)
          = Inr ((\<lambda>s j. section_at stepReference ?steps j) (?steps ! j) (0 + j))"
    by (simp add: render_section_in_range)
  from map_indexed_ok [OF this]
  show ?thesis by (simp add: FunnelBarGraph_def)
qed

lemma step_bar_no_dropoff:
  "order step = 0 \<or> count previousStep - count step \<le> 0 \<Longrightarrow>
   \<not> reports_dropoff (step_bar firstStep basisStep previousStep step)"
  by (auto simp: reports_dropoff_def rendered_metrics_def step_bar_def previousCount_def Let_def)

lemma breakdown_bar_no_dropoff:
  "order step = 0 \<or> slice_previousCount (Some previousStep) index - count slice \<le> 0 \<Longrightarrow>
   \<not> reports_dropoff (breakdown_bar firstStep basisStep previousStep step index slice)"
  by (auto simp: reports_dropoff_def rendered_metrics_def breakdown_bar_def Let_def)

lemma section_at_footer:
  "order (steps ! i) = 0 \<or> count (reference_at steps previous i) - count (steps ! i) \<le> 0 \<Longrightarrow>
   dropoff (section_at stepReference steps i) = None"
  by (auto simp: section_at_def Let_def)

lemma section_at_bars_order0:
  "order (steps ! i) = 0 \<Longrightarrow>
   list_all (\<lambda>b. \<not> reports_dropoff b) (bars (section_at stepReference steps i))"
  by (auto simp: section_at_def Let_def list_all_iff step_bar_no_dropoff
      breakdown_bar_no_dropoff split: option.splits list.splits)

lemma section_at_bars_plain:
  "\<not> has_slices (steps ! i) \<Longrightarrow>
   count (reference_at steps previous i) - count (steps ! i) \<le> 0 \<Longrightarrow>
   list_all (\<lambda>b. \<not> reports_dropoff b) (bars (section_at stepReference steps i))"
  by (auto simp: section_at_def Let_def has_slices_def step_bar_no_dropoff
      split: option.splits list.splits)

lemma section_at_bars_slice:
  assumes "breakdown (steps ! i) = Some slices" "k < length slices"
    and "slice_previousCount (Some (reference_at steps previous i)) k - count (slices ! k) \<le> 0"
  shows "k < length (bars (section_at stepReference steps i)) \<and>
         \<not> reports_dropoff (bars (section_at stepReference steps i) ! k)"
proof -
  obtain s ss where sl: "slices = s # ss" using assms(2) by (cases slices) auto
  have b: "bars (section_at stepReference steps i) =
      map (\<lambda>(index, slice).
             breakdown_bar (steps ! 0) (reference_at steps stepReference i)
               (reference_at steps previous i) (steps ! i) index slice)
        (enumerate 0 slices)"
    using assms(1) sl by (simp add: section_at_def Let_def)
  show ?thesis
    using assms(2,3) by (simp add: b nth_enumerate_eq breakdown_bar_no_dropoff)
qed

text \<open>
  C9. \<open>FunnelBarGraph\<close> renders one section for each step. For a stage of order 0 the
  footer shows no drop-off and no bar reports a drop-off count or rate, whatever the
  counts. For a stage whose drop-off count from the previous step is \<open>\<le> 0\<close> the footer
  shows none and the bar of the stage reports none; and the bar of a breakdown slice whose
  own drop-off count is \<open>\<le> 0\<close> reports none.
\<close>

theorem FunnelBarGraph_dropoff_suppressed:
  "\<exists>sections.
     FunnelBarGraph stepReference stepsParam = Inr sections \<and>
     length sections = length stepsParam \<and>
     (\<forall>i < length stepsParam.
        (order (sort_key order stepsParam ! i) = 0 \<longrightarrow>
           dropoff (sections ! i) = None \<and>
           list_all (\<lambda>b. \<not> reports_dropoff b) (bars (sections ! i))) \<and>
        (count (reference_at (sort_key order stepsParam) previous i)
           - count (sort_key order stepsParam ! i) \<le> 0 \<longrightarrow>
           dropoff (sections ! i) = None \<and>
           (\<not> has_slices (sort_key order stepsParam ! i) \<longrightarrow>
              list_all (\<lambda>b. \<not> reports_dropoff b) (bars (sections ! i)))) \<and>
        (\<forall>slices k.
           breakdown (sort_key order stepsParam ! i) = Some slices \<and> k < length slices \<and>
           slice_previousCount (Some (reference_at (sort_key order stepsParam) previous i)) k
             - count (slices ! k) \<le> 0 \<longrightarrow>
           k < length (bars (sections ! i)) \<and> \<not> reports_dropoff (bars (sections ! i) ! k)))"
proof -
  let ?steps = "sort_key order stepsParam"
  let ?sections = "map (section_at stepReference ?steps) [0..<length stepsParam]"
  have nth: "\<And>i. i < length stepsParam \<Longrightarrow> ?sections ! i = section_at stepReference ?steps i"
    by simp
  show ?thesis
  proof (intro exI [where x = ?sections] conjI allI impI)
    show "FunnelBarGraph stepReference stepsParam = Inr ?sections"
      by (rule FunnelBarGraph_sections)
    show "length ?sections = length stepsParam" by simp
  next
    fix i assume "i < length stepsParam" "order (?steps ! i) = 0"
    then show "dropoff (?sections ! i) = None"
      by (simp add: section_at_footer)
  next
    fix i assume "i < length stepsParam" "order (?steps ! i) = 0"
    then show "list_all (\<lambda>b. \<not> reports_dropoff b) (bars (?sections ! i))"
      by (simp add: section_at_bars_order0)
  next
    fix i assume "i < length stepsParam"
      "count (reference_at ?steps previous i) - count (?steps ! i) \<le> 0"
    then show "dropoff (?sections ! i) = None"
      by (simp add: section_at_footer)
  next
    fix i assume "i < length stepsParam"
      "count (reference_at ?steps previous i) - count (?steps ! i) \<le> 0"
      "\<not> has_slices (?steps ! i)"
    then show "list_all (\<lambda>b. \<not> reports_dropoff b) (bars (?sections ! i))"
      by (simp add: section_at_bars_plain)
  next
    fix i slices k
    assume i: "i < length stepsParam"
      and s: "breakdown (?steps ! i) = Some slices \<and> k < length slices \<and>
        slice_previousCount (Some (reference_at ?steps previous i)) k - count (slices ! k) \<le> 0"
    from section_at_bars_slice [of ?steps i slices k stepReference] s
    have r: "k < length (bars (section_at stepReference ?steps i)) \<and>
          \<not> reports_dropoff (bars (section_at stepReference ?steps i) ! k)" by blast
    show "k < length (bars (?sections ! i))" using r i by (simp only: nth)
    show "\<not> reports_dropoff (bars (?sections ! i) ! k)" using r i by (simp only: nth) simp
  qed
qed

lemma graph_steps_sorted:
  "sort_key order graph_steps = [graph_stage0, graph_stage1, graph_stage2, graph_stage3]"
  by (simp add: graph_steps_def graph_stage0_def graph_stage1_def graph_stage2_def
      graph_stage3_def)

theorem FunnelBarGraph_dropoff_suppressed_witness:
  "\<exists>sections.
     FunnelBarGraph total graph_steps = Inr sections \<and>
     length sections = 4 \<and>
     dropoff (sections ! 0) = None \<and>
     list_all (\<lambda>b. \<not> reports_dropoff b) (bars (sections ! 0)) \<and>
     dropoff (sections ! 1) = None \<and>
     list_all (\<lambda>b. \<not> reports_dropoff b) (bars (sections ! 1)) \<and>
     \<not> reports_dropoff (bars (sections ! 3) ! 0)"
proof -
  let ?steps = "sort_key order graph_steps"
  from FunnelBarGraph_dropoff_suppressed [of total graph_steps]
  obtain sections where run: "FunnelBarGraph total graph_steps = Inr sections"
    and len: "length sections = length graph_steps"
    and all: "\<forall>i < length graph_steps.
        (order (?steps ! i) = 0 \<longrightarrow>
           dropoff (sections ! i) = None \<and>
           list_all (\<lambda>b. \<not> reports_dropoff b) (bars (sections ! i))) \<and>
        (count (reference_at ?steps previous i) - count (?steps ! i) \<le> 0 \<longrightarrow>
           dropoff (sections ! i) = None \<and>
           (\<not> has_slices (?steps ! i) \<longrightarrow>
              list_all (\<lambda>b. \<not> reports_dropoff b) (bars (sections ! i)))) \<and>
        (\<forall>slices k.
           breakdown (?steps ! i) = Some slices \<and> k < length slices \<and>
           slice_previousCount (Some (reference_at ?steps previous i)) k
             - count (slices ! k) \<le> 0 \<longrightarrow>
           k < length (bars (sections ! i)) \<and> \<not> reports_dropoff (bars (sections ! i) ! k))"
    by (elim exE conjE)
  have n: "length graph_steps = 4" by (simp add: graph_steps_def)
  have s0: "order (?steps ! 0) = 0"
    by (simp add: graph_steps_sorted graph_stage0_def)
  have s1: "count (reference_at ?steps previous 1) - count (?steps ! 1) \<le> 0"
    "\<not> has_slices (?steps ! 1)"
    by (simp_all add: graph_steps_sorted reference_at_def has_slices_def graph_stage0_def
        graph_stage1_def)
  have s3: "breakdown (?steps ! 3) = Some [example_slice ''Chrome'' 3 5, example_slice ''Safari'' 3 1]
      \<and> 0 < length [example_slice ''Chrome'' 3 5, example_slice ''Safari'' 3 1]
      \<and> slice_previousCount (Some (reference_at ?steps previous 3)) 0
           - count ([example_slice ''Chrome'' 3 5, example_slice ''Safari'' 3 1] ! 0) \<le> 0"
    by (simp add: graph_steps_sorted reference_at_def slice_previousCount_def js_index_def
        graph_stage2_def graph_stage3_def example_slice_def)
  have a0: "dropoff (sections ! 0) = None \<and>
      list_all (\<lambda>b. \<not> reports_dropoff b) (bars (sections ! 0))"
    using all n s0 by simp
  have a1: "dropoff (sections ! 1) = None \<and>
      list_all (\<lambda>b. \<not> reports_dropoff b) (bars (sections ! 1))"
    using all n s1 by simp
  have "3 < length graph_steps" using n by simp
  with all s3 have a3: "\<not> reports_dropoff (bars (sections ! 3) ! 0)" by blast
  show ?thesis
    using run len n a0 a1 a3 by (intro exI [where x = sections]) simp
qed

lemma graph_reports:
  "FunnelBarGraph total graph_steps = Inr sections \<Longrightarrow>
     dropoff (sections ! 2) = Some \<lparr>dropped_off = 2, dropoff_percent = Fin 20\<rparr> \<and>
     reports_dropoff (bars (sections ! 3) ! 1)"
  by (auto simp add: FunnelBarGraph_sections graph_steps_sorted upt_rec [of 0] upt_rec [of 1] upt_rec [of 2] upt_rec [of 3] 
      section_at_def reference_at_def Let_def graph_stage0_def graph_stage1_def graph_stage2_def
      graph_stage3_def graph_steps_def example_slice_def calcPercentage_def js_or_def num_def
      reports_dropoff_def rendered_metrics_def breakdown_bar_def slice_previousCount_def
      js_index_def enumerate_eq_zip)

end
